theory Spec2Isabelle
  imports Complex_Main
begin


section \<open>Python strings\<close>

text \<open>
  A Python \<open>str\<close> is modelled as a \<open>string\<close>; each \<open>char\<close> stands for the code point
  of the same number (0 to 255). The string methods below follow CPython on that range.
\<close>

definition is_space :: "char \<Rightarrow> bool" where
  \<comment> \<open>\<open>str.isspace\<close> on one character: TAB to CR, FS to US, space, NEL and NBSP.\<close>
  "is_space c =
     (let n = (of_char c :: nat)
      in (9 \<le> n \<and> n \<le> 13) \<or> (28 \<le> n \<and> n \<le> 32) \<or> n = 133 \<or> n = 160)"

definition strip :: "string \<Rightarrow> string" where
  \<comment> \<open>\<open>s.strip()\<close>: whitespace removed at both ends.\<close>
  "strip s = rev (dropWhile is_space (rev (dropWhile is_space s)))"

definition lower_char :: "char \<Rightarrow> char" where
  \<comment> \<open>\<open>c.lower()\<close>: A to Z, and the Latin-1 capitals 192 to 222 apart from the
      multiplication sign 215, move up by 32.\<close>
  "lower_char c =
     (let n = (of_char c :: nat)
      in if (65 \<le> n \<and> n \<le> 90) \<or> (192 \<le> n \<and> n \<le> 222 \<and> n \<noteq> 215)
         then char_of (n + 32) else c)"

definition lower :: "string \<Rightarrow> string" where
  "lower s = map lower_char s"

definition startswith :: "string \<Rightarrow> string \<Rightarrow> bool" where
  \<comment> \<open>\<open>s.startswith(p)\<close>\<close>
  "startswith s p = (take (length p) s = p)"

fun contains :: "string \<Rightarrow> string \<Rightarrow> bool" where
  \<comment> \<open>\<open>p in s\<close>: \<open>p\<close> occurs in \<open>s\<close> as a contiguous run.\<close>
  "contains p [] = (p = [])"
| "contains p (x # xs) = (startswith (x # xs) p \<or> contains p xs)"

fun split_max :: "char \<Rightarrow> nat \<Rightarrow> string \<Rightarrow> string list" where
  \<comment> \<open>\<open>s.split(c, n)\<close>: cut at the first \<open>n\<close> occurrences of \<open>c\<close>.\<close>
  "split_max c 0 s = [s]"
| "split_max c (Suc n) s =
     (case dropWhile (\<lambda>x. x \<noteq> c) s of
        [] \<Rightarrow> [s]
      | _ # rest \<Rightarrow> takeWhile (\<lambda>x. x \<noteq> c) s # split_max c n rest)"

definition split :: "char \<Rightarrow> string \<Rightarrow> string list" where
  \<comment> \<open>\<open>s.split(c)\<close>: cut at every occurrence; a string has at most \<open>length s\<close> of them.\<close>
  "split c s = split_max c (length s) s"

section \<open>Exceptions and external commands\<close>

datatype exc_class =
    CalledProcessError
  | FileNotFoundError
  | PermissionError
  | FileExistsError
  | IndexError
  | ValueError
  | JSONDecodeError
  | OSError
  | KeyError
  | TypeError
  | AttributeError

datatype py_exception = Raised exc_class string
  \<comment> \<open>an exception object: its class and the text \<open>str(e)\<close>\<close>

text \<open>
  The outcome of \<open>subprocess.check_output\<close>, of opening and reading a file, or of any
  other call that may raise: \<open>Inl\<close> the exception, \<open>Inr\<close> the value.
\<close>

type_synonym 'a result = "py_exception + 'a"

section \<open>Installed-version detector\<close>

definition major_minor :: "string \<Rightarrow> string result" where
  \<comment> \<open>\<open>major, minor, _ = version.split('.', 2)\<close> and the f-string: the unpacking needs
      exactly three parts.\<close>
  "major_minor version =
     (let parts = split_max (CHR ''.'') 2 version
      in if length parts \<noteq> 3
         then Inl (Raised ValueError
                (''not enough values to unpack (expected 3, got '' @
                   (if length parts = 1 then ''1'' else ''2'') @ '')''))
         else Inr (parts ! 0 @ ''.'' @ parts ! 1))"

definition get_installed_psmp_version :: "string result \<Rightarrow> string option result" where
  \<comment> \<open>The argument is the outcome of \<open>rpm -qa | grep -i cark\<close>. Only
      \<open>CalledProcessError\<close> is caught; a function that falls off its end returns \<open>None\<close>.\<close>
  "get_installed_psmp_version query =
     (case query of
        Inl (Raised CalledProcessError _) \<Rightarrow> Inr None
      | Inl e \<Rightarrow> Inl e
      | Inr out \<Rightarrow>
          (let result = strip out
           in if result = [] then Inr None
              else (let fields = split (CHR ''-'') result
                    in if length fields < 2
                       then Inl (Raised IndexError ''list index out of range'')
                       else (case major_minor (fields ! 1) of
                               Inl e \<Rightarrow> Inl e
                             | Inr main_version \<Rightarrow> Inr (Some main_version)))))"

section \<open>Distribution detector\<close>

definition main_version :: "string \<Rightarrow> string" where
  \<comment> \<open>Lines 31 to 34 of \<open>get_linux_distribution\<close>: the first two \<open>.\<close>-separated
      components, the minor one \<open>0\<close> when there is none.\<close>
  "main_version version_info =
     (let version_parts = split (CHR ''.'') version_info;
          major = version_parts ! 0;
          minor = (if length version_parts > 1 then version_parts ! 1 else ''0'')
      in major @ ''.'' @ minor)"

definition get_linux_distribution :: "string \<Rightarrow> string \<Rightarrow> string \<times> string" where
  \<comment> \<open>The arguments are what \<open>distro.name()\<close> and \<open>distro.version(best=True)\<close> return.\<close>
  "get_linux_distribution distro_name version_info = (distro_name, main_version version_info)"

section \<open>Compatibility evaluator\<close>

record supported_distribution =
  name :: string
  versions :: "string list option"  \<comment> \<open>\<open>None\<close>: the entry has no \<open>versions\<close> key\<close>

text \<open>
  A support matrix of the shape the data model describes, as \<open>json.load\<close> returns it:
  a dict, here the list of its items in iteration order (the keys of a dict are
  distinct), each key with the list under \<open>supported_distributions\<close>.
\<close>

type_synonym support_matrix = "(string \<times> supported_distribution list) list"

fun versions_loop :: "string \<Rightarrow> string list \<Rightarrow> bool" where
  "versions_loop distro_version [] = False"
| "versions_loop distro_version (supported_version # rest) =
     (if startswith distro_version supported_version then True
      else versions_loop distro_version rest)"

fun distros_loop :: "string \<Rightarrow> string \<Rightarrow> supported_distribution list \<Rightarrow> bool" where
  "distros_loop distro_name distro_version [] = False"
| "distros_loop distro_name distro_version (distro_info # rest) =
     (if lower (name distro_info) = lower distro_name
         \<and> versions_loop distro_version
              (case versions distro_info of None \<Rightarrow> [] | Some vs \<Rightarrow> vs)
      then True
      else distros_loop distro_name distro_version rest)"

fun keys_loop :: "string \<Rightarrow> string \<Rightarrow> string \<Rightarrow> support_matrix \<Rightarrow> bool" where
  "keys_loop psmp_version distro_name distro_version [] = False"
| "keys_loop psmp_version distro_name distro_version ((version, distributions) # rest) =
     (if startswith version psmp_version
         \<and> distros_loop distro_name distro_version distributions
      then True
      else keys_loop psmp_version distro_name distro_version rest)"

definition is_supported :: "support_matrix \<Rightarrow> string \<Rightarrow> string \<Rightarrow> string \<Rightarrow> bool" where
  "is_supported psmp_versions psmp_version distro_name distro_version =
     (if psmp_version \<notin> set (map fst psmp_versions) then False
      else keys_loop psmp_version distro_name distro_version psmp_versions)"

text \<open>
  The evaluator as the specification words it, without the membership test: some key
  starts with the installed version, and under it some entry has the distribution's
  name, case-insensitively, and a version prefix of the distribution's version.
\<close>

definition spec_is_supported ::
  "support_matrix \<Rightarrow> string \<Rightarrow> string \<Rightarrow> string \<Rightarrow> bool" where
  "spec_is_supported psmp_versions psmp_version distro_name distro_version =
     list_ex (\<lambda>(version, distributions).
        startswith version psmp_version \<and>
        list_ex (\<lambda>distro_info.
           lower (name distro_info) = lower distro_name \<and>
           list_ex (\<lambda>supported_version. startswith distro_version supported_version)
             (case versions distro_info of None \<Rightarrow> [] | Some vs \<Rightarrow> vs))
          distributions)
       psmp_versions"

section \<open>Compatibility evaluator on the loaded file\<close>

text \<open>
  What \<open>json.load\<close> returns: \<open>None\<close>, a \<open>bool\<close>, an \<open>int\<close>, a \<open>float\<close> (here with the text
  of its literal), a \<open>str\<close>, a \<open>list\<close>, or a \<open>dict\<close>, here the list of its items in
  iteration order (the keys of a dict are distinct strings). Nothing in the loader
  checks that the value has the shape of a support matrix.
\<close>

datatype json =
    JNull
  | JBool bool
  | JInt int
  | JFloat string
  | JString string
  | JArray "json list"
  | JObject "(string \<times> json) list"

fun type_name :: "json \<Rightarrow> string" where
  \<comment> \<open>\<open>type(j).__name__\<close>\<close>
  "type_name JNull = ''NoneType''"
| "type_name (JBool b) = ''bool''"
| "type_name (JInt n) = ''int''"
| "type_name (JFloat t) = ''float''"
| "type_name (JString s) = ''str''"
| "type_name (JArray xs) = ''list''"
| "type_name (JObject kvs) = ''dict''"

definition quoted :: "string \<Rightarrow> string" where
  \<comment> \<open>the string between single quotes\<close>
  "quoted s = [char_of (39 :: nat)] @ s @ [char_of (39 :: nat)]"

text \<open>
  The operations \<open>is_supported\<close> applies to the loaded value and to what it finds
  inside, each with the exception CPython 3.11 raises on a value of another type.
\<close>

definition no_attribute :: "json \<Rightarrow> string \<Rightarrow> py_exception" where
  \<comment> \<open>the \<open>AttributeError\<close> for a method the value does not have\<close>
  "no_attribute j attr =
     Raised AttributeError
       (quoted (type_name j) @ '' object has no attribute '' @ quoted attr)"

fun py_contains :: "string \<Rightarrow> json \<Rightarrow> bool result" where
  \<comment> \<open>\<open>s in j\<close>: a key of a dict, an element of a list, a substring of a string\<close>
  "py_contains s (JObject kvs) = Inr (s \<in> set (map fst kvs))"
| "py_contains s (JArray xs) = Inr (JString s \<in> set xs)"
| "py_contains s (JString t) = Inr (contains s t)"
| "py_contains s j =
     Inl (Raised TypeError (''argument of type '' @ quoted (type_name j) @ '' is not iterable''))"

fun py_iter :: "json \<Rightarrow> json list result" where
  \<comment> \<open>what \<open>for x in j\<close> runs through: the keys of a dict, the elements of a list, the
      characters of a string\<close>
  "py_iter (JObject kvs) = Inr (map (\<lambda>kv. JString (fst kv)) kvs)"
| "py_iter (JArray xs) = Inr xs"
| "py_iter (JString t) = Inr (map (\<lambda>c. JString [c]) t)"
| "py_iter j = Inl (Raised TypeError (quoted (type_name j) @ '' object is not iterable''))"

fun py_getitem :: "json \<Rightarrow> string \<Rightarrow> json result" where
  \<comment> \<open>\<open>j[key]\<close> for a string \<open>key\<close>\<close>
  "py_getitem (JObject kvs) key =
     (case map_of kvs key of
        Some v \<Rightarrow> Inr v
      | None \<Rightarrow> Inl (Raised KeyError (quoted key)))"
| "py_getitem (JArray xs) key =
     Inl (Raised TypeError ''list indices must be integers or slices, not str'')"
| "py_getitem (JString t) key =
     Inl (Raised TypeError (''string indices must be integers, not '' @ quoted ''str''))"
| "py_getitem j key =
     Inl (Raised TypeError (quoted (type_name j) @ '' object is not subscriptable''))"

fun py_get :: "json \<Rightarrow> string \<Rightarrow> json \<Rightarrow> json result" where
  \<comment> \<open>\<open>j.get(key, default)\<close>\<close>
  "py_get (JObject kvs) key dflt = (case map_of kvs key of Some v \<Rightarrow> Inr v | None \<Rightarrow> Inr dflt)"
| "py_get j key dflt = Inl (no_attribute j ''get'')"

fun py_lower :: "json \<Rightarrow> string result" where
  \<comment> \<open>\<open>j.lower()\<close>\<close>
  "py_lower (JString s) = Inr (lower s)"
| "py_lower j = Inl (no_attribute j ''lower'')"

fun startswith_json :: "string \<Rightarrow> json \<Rightarrow> bool result" where
  \<comment> \<open>\<open>s.startswith(j)\<close> for a string \<open>s\<close>\<close>
  "startswith_json s (JString p) = Inr (startswith s p)"
| "startswith_json s j =
     Inl (Raised TypeError
            (''startswith first arg must be str or a tuple of str, not '' @ type_name j))"

fun json_versions_loop :: "string \<Rightarrow> json list \<Rightarrow> bool result" where
  \<comment> \<open>lines 46 to 48\<close>
  "json_versions_loop distro_version [] = Inr False"
| "json_versions_loop distro_version (supported_version # rest) =
     (case startswith_json distro_version supported_version of
        Inl e \<Rightarrow> Inl e
      | Inr True \<Rightarrow> Inr True
      | Inr False \<Rightarrow> json_versions_loop distro_version rest)"

fun json_distros_loop :: "string \<Rightarrow> string \<Rightarrow> json list \<Rightarrow> bool result" where
  \<comment> \<open>lines 43 to 48 for one key: \<open>True\<close> stands for the \<open>return True\<close> of line 48\<close>
  "json_distros_loop distro_name distro_version [] = Inr False"
| "json_distros_loop distro_name distro_version (distro_info # rest) =
     (case py_getitem distro_info ''name'' of
        Inl e \<Rightarrow> Inl e
      | Inr distro_info_name \<Rightarrow>
          (case py_lower distro_info_name of
             Inl e \<Rightarrow> Inl e
           | Inr lowered \<Rightarrow>
               if lowered = lower distro_name then
                 (case py_get distro_info ''versions'' (JArray []) of
                    Inl e \<Rightarrow> Inl e
                  | Inr supported_versions \<Rightarrow>
                      (case py_iter supported_versions of
                         Inl e \<Rightarrow> Inl e
                       | Inr vs \<Rightarrow>
                           (case json_versions_loop distro_version vs of
                              Inl e \<Rightarrow> Inl e
                            | Inr True \<Rightarrow> Inr True
                            | Inr False \<Rightarrow>
                                json_distros_loop distro_name distro_version rest)))
               else json_distros_loop distro_name distro_version rest))"

fun json_keys_loop ::
  "json \<Rightarrow> string \<Rightarrow> string \<Rightarrow> string \<Rightarrow> json list \<Rightarrow> bool result" where
  \<comment> \<open>lines 41 to 49 over what is left of the iteration; \<open>version.startswith\<close> needs
      \<open>version\<close> to be a string\<close>
  "json_keys_loop psmp_versions psmp_version distro_name distro_version [] = Inr False"
| "json_keys_loop psmp_versions psmp_version distro_name distro_version
     (JString version # rest) =
     (if startswith version psmp_version then
        (case py_getitem psmp_versions version of
           Inl e \<Rightarrow> Inl e
         | Inr rule \<Rightarrow>
             (case py_getitem rule ''supported_distributions'' of
                Inl e \<Rightarrow> Inl e
              | Inr supported_distributions \<Rightarrow>
                  (case py_iter supported_distributions of
                     Inl e \<Rightarrow> Inl e
                   | Inr distributions \<Rightarrow>
                       (case json_distros_loop distro_name distro_version distributions of
                          Inl e \<Rightarrow> Inl e
                        | Inr True \<Rightarrow> Inr True
                        | Inr False \<Rightarrow>
                            json_keys_loop psmp_versions psmp_version distro_name
                              distro_version rest))))
      else json_keys_loop psmp_versions psmp_version distro_name distro_version rest)"
| "json_keys_loop psmp_versions psmp_version distro_name distro_version (version # rest) =
     Inl (no_attribute version ''startswith'')"

definition is_supported_json :: "json \<Rightarrow> string \<Rightarrow> string \<Rightarrow> string \<Rightarrow> bool result" where
  \<comment> \<open>\<open>is_supported\<close>, lines 38 to 49, on whatever was loaded\<close>
  "is_supported_json psmp_versions psmp_version distro_name distro_version =
     (case py_contains psmp_version psmp_versions of
        Inl e \<Rightarrow> Inl e
      | Inr False \<Rightarrow> Inr False
      | Inr True \<Rightarrow>
          (case py_iter psmp_versions of
             Inl e \<Rightarrow> Inl e
           | Inr keys \<Rightarrow>
               json_keys_loop psmp_versions psmp_version distro_name distro_version keys))"

text \<open>
  A support matrix of the shape the data model describes, as the loaded value.
\<close>

definition json_of_distribution :: "supported_distribution \<Rightarrow> json" where
  "json_of_distribution d =
     JObject ((''name'', JString (name d)) #
              (case versions d of
                 None \<Rightarrow> []
               | Some vs \<Rightarrow> [(''versions'', JArray (map JString vs))]))"

definition json_of_matrix :: "support_matrix \<Rightarrow> json" where
  "json_of_matrix m =
     JObject (map (\<lambda>(version, distributions).
                     (version,
                      JObject [(''supported_distributions'',
                                JArray (map json_of_distribution distributions))]))
                m)"

section \<open>Service status checker\<close>

definition psmpsrv_status :: "string result \<Rightarrow> string result \<Rightarrow> string result" where
  \<comment> \<open>Lines 56 to 70. The arguments are the outcomes of \<open>systemctl status psmpsrv\<close>
      and of opening and reading \<open>PSMPConsole.log\<close>; the log is read only when the
      status text has \<open>Active: active\<close>. The handler catches \<open>CalledProcessError\<close>
      raised anywhere in the \<open>try\<close> block and nothing else.\<close>
  "psmpsrv_status systemctl_psmpsrv console_log =
     (case systemctl_psmpsrv of
        Inl (Raised CalledProcessError _) \<Rightarrow> Inr ''Inactive''
      | Inl e \<Rightarrow> Inl e
      | Inr result_psmpsrv \<Rightarrow>
          if contains ''Active: active'' result_psmpsrv then
            (case console_log of
               Inl (Raised CalledProcessError _) \<Rightarrow> Inr ''Inactive''
             | Inl e \<Rightarrow> Inl e
             | Inr log_content \<Rightarrow>
                 if contains ''is up and working with Vault'' log_content
                 then Inr ''Running and communicating with Vault''
                 else Inr ''Running but not communicating with Vault'')
          else if contains ''Active: inactive'' result_psmpsrv then Inr ''Inactive''
          else Inr ''Inactive'')"

definition sshd_status :: "string result \<Rightarrow> string result" where
  \<comment> \<open>Lines 73 to 82; the argument is the outcome of \<open>systemctl status sshd\<close>.\<close>
  "sshd_status systemctl_sshd =
     (case systemctl_sshd of
        Inl (Raised CalledProcessError _) \<Rightarrow> Inr ''Inactive''
      | Inl e \<Rightarrow> Inl e
      | Inr result_sshd \<Rightarrow>
          if contains ''Active: active'' result_sshd then Inr ''Running''
          else if contains ''Active: inactive'' result_sshd then Inr ''Inactive''
          else Inr ''Inactive'')"

definition check_services_status ::
  "string result \<Rightarrow> string result \<Rightarrow> string result \<Rightarrow> (string \<times> string) list result" where
  \<comment> \<open>The returned dict as the list of its items, in insertion order. An exception
      that escapes the first \<open>try\<close> block ends the call before the second.\<close>
  "check_services_status systemctl_psmpsrv console_log systemctl_sshd =
     (case psmpsrv_status systemctl_psmpsrv console_log of
        Inl e \<Rightarrow> Inl e
      | Inr psmpsrv \<Rightarrow>
          (case sshd_status systemctl_sshd of
             Inl e \<Rightarrow> Inl e
           | Inr sshd \<Rightarrow> Inr [(''psmpsrv'', psmpsrv), (''sshd'', sshd)]))"

definition dict_get :: "(string \<times> string) list \<Rightarrow> string \<Rightarrow> string \<Rightarrow> string" where
  \<comment> \<open>\<open>d.get(key, default)\<close>\<close>
  "dict_get d key dflt = (case map_of d key of None \<Rightarrow> dflt | Some v \<Rightarrow> v)"

section \<open>SSH configuration auditor\<close>

definition key_auth_advisory :: string where
  "key_auth_advisory =
     ''[+] SSH-Key auth not enabled, sshd_config missing 'PubkeyAcceptedAlgorithms'.''"

fun scan_lines :: "string list \<Rightarrow> bool \<times> bool \<times> bool \<Rightarrow> bool \<times> bool \<times> bool" where
  \<comment> \<open>The loop of lines 124 to 133 over the lines of the file, on the three flags
      \<open>found_pmsp_auth_block\<close>, \<open>found_allow_user\<close>,
      \<open>found_pubkey_accepted_algorithms\<close>.\<close>
  "scan_lines [] flags = flags"
| "scan_lines (line # rest)
     (found_pmsp_auth_block, found_allow_user, found_pubkey_accepted_algorithms) =
     scan_lines rest
       (if strip line = ''# PSMP Authentication Configuration Block Start''
        then True else found_pmsp_auth_block,
        if startswith (strip line) ''AllowUser''
        then True else found_allow_user,
        if contains ''PubkeyAcceptedAlgorithms'' line \<and> \<not> startswith (strip line) ''#''
        then True else found_pubkey_accepted_algorithms)"

definition check_sshd_config :: "string list result \<Rightarrow> string list result" where
  \<comment> \<open>The argument is the outcome of opening \<open>/etc/ssh/sshd_config\<close> and reading its
      lines; the value is the list of printed lines. Only \<open>FileNotFoundError\<close> is
      caught. The third flag is computed and never read.\<close>
  "check_sshd_config sshd_config =
     (case sshd_config of
        Inl (Raised FileNotFoundError _) \<Rightarrow> Inr [''sshd_config file not found.'']
      | Inl e \<Rightarrow> Inl e
      | Inr lines \<Rightarrow>
          (case scan_lines lines (False, False, False) of
             (found_pmsp_auth_block, found_allow_user, found_pubkey_accepted_algorithms) \<Rightarrow>
               Inr ((if \<not> found_pmsp_auth_block
                     then [''PSMP authentication block not found.''] else []) @
                    (if found_allow_user
                     then [''AllowUser mentioned found.'']
                     else [key_auth_advisory]))))"

definition uncommented_pubkey_line :: "string \<Rightarrow> bool" where
  \<comment> \<open>The specification's condition on a line: it contains
      \<open>PubkeyAcceptedAlgorithms\<close> and is not a comment.\<close>
  "uncommented_pubkey_line line =
     (contains ''PubkeyAcceptedAlgorithms'' line \<and> \<not> startswith (strip line) ''#'')"

section \<open>Python floats\<close>

text \<open>
  A non-negative \<open>float\<close> is an IEEE 754 binary64 value: \<open>Finite m e\<close> stands for
  \<open>m * 2 ^ e\<close>, with \<open>2 ^ 52 \<le> m < 2 ^ 53\<close> and \<open>- 1074 \<le> e \<le> 971\<close> for a normal number and
  \<open>m < 2 ^ 52\<close>, \<open>e = - 1074\<close> for zero and the subnormal ones, so that each value has one
  representation. Negative numbers and NaN do not arise from a version token.
\<close>

datatype pyfloat = Finite int int | Infinity

fun is_binary64 :: "pyfloat \<Rightarrow> bool" where
  \<comment> \<open>the representations described above\<close>
  "is_binary64 Infinity = True"
| "is_binary64 (Finite m e) =
     (if m < 2 ^ 52 then 0 \<le> m \<and> e = - 1074
      else m < 2 ^ 53 \<and> - 1074 \<le> e \<and> e \<le> 971)"

definition is_digit :: "char \<Rightarrow> bool" where
  \<comment> \<open>a decimal digit: \<open>\d\<close> on one character\<close>
  "is_digit c = (48 \<le> (of_char c :: nat) \<and> (of_char c :: nat) \<le> 57)"

function count_digits :: "int \<Rightarrow> int \<Rightarrow> int" where
  \<comment> \<open>the number of digits of \<open>n\<close> in base \<open>b\<close>\<close>
  "count_digits b n = (if n \<le> 0 \<or> b \<le> 1 then 0 else 1 + count_digits b (n div b))"
  by pat_completeness auto
termination
  by (relation "measure (\<lambda>(b, n). nat n)") (auto simp: div_less_dividend zdiv_mono2 intro!: int_div_less_self)

declare count_digits.simps [simp del]

definition floor_log :: "int \<Rightarrow> int \<Rightarrow> int \<Rightarrow> int" where
  \<comment> \<open>the integer \<open>k\<close> with \<open>b ^ k \<le> n / d < b ^ (k + 1)\<close>, for \<open>n\<close> and \<open>d\<close> positive\<close>
  "floor_log b n d =
     (let k = count_digits b n - count_digits b d
      in if (if 0 \<le> k then d * b ^ nat k \<le> n else d \<le> n * b ^ nat (- k))
         then k else k - 1)"

definition round_half_even :: "int \<Rightarrow> int \<Rightarrow> int" where
  \<comment> \<open>\<open>n / d\<close> rounded to the nearest integer, a tie to the even one\<close>
  "round_half_even n d =
     (let q = n div d; r = n mod d
      in if 2 * r < d then q
         else if d < 2 * r then q + 1
         else if even q then q else q + 1)"

definition to_double :: "int \<Rightarrow> int \<Rightarrow> pyfloat" where
  \<comment> \<open>the binary64 value nearest to \<open>n / d\<close> (round to nearest, ties to even; overflow
      to infinity), as \<open>float(str)\<close> and the compiler's float literals compute it\<close>
  "to_double n d =
     (if n = 0 then Finite 0 (- 1074)
      else
        (let e = max (floor_log 2 n d - 52) (- 1074);
             m = (if 0 \<le> e then round_half_even n (d * 2 ^ nat e)
                  else round_half_even (n * 2 ^ nat (- e)) d);
             m' = (if m = 2 ^ 53 then 2 ^ 52 else m);
             e' = (if m = 2 ^ 53 then e + 1 else e)
         in if 971 < e' then Infinity else Finite m' e'))"

fun float_ge :: "pyfloat \<Rightarrow> pyfloat \<Rightarrow> bool" where
  \<comment> \<open>\<open>x >= y\<close>\<close>
  "float_ge Infinity y = True"
| "float_ge (Finite m e) Infinity = False"
| "float_ge (Finite m e) (Finite m' e') =
     (m' * 2 ^ nat (e' - min e e') \<le> m * 2 ^ nat (e - min e e'))"

definition digits_value :: "string \<Rightarrow> int" where
  \<comment> \<open>the number a string of decimal digits denotes\<close>
  "digits_value ds = foldl (\<lambda>a c. 10 * a + (of_char c - 48)) 0 ds"

definition py_float :: "string \<Rightarrow> string \<Rightarrow> pyfloat" where
  \<comment> \<open>\<open>float(s)\<close> for \<open>s\<close> the digits \<open>int_part\<close>, a point and the digits \<open>frac_part\<close>\<close>
  "py_float int_part frac_part =
     to_double (digits_value (int_part @ frac_part)) (10 ^ length frac_part)"

definition decimal :: "int \<Rightarrow> int \<Rightarrow> pyfloat" where
  \<comment> \<open>the float nearest to \<open>M * 10 ^ j\<close>\<close>
  "decimal M j =
     (if 0 \<le> j then to_double (M * 10 ^ nat j) 1 else to_double M (10 ^ nat (- j)))"

definition shortest_at :: "int \<Rightarrow> int \<Rightarrow> int \<Rightarrow> (int \<times> int) option" where
  \<comment> \<open>For the positive float \<open>m * 2 ^ e\<close>: among the decimals \<open>M * 10 ^ j\<close> of at most \<open>n\<close>
      significant digits that convert back to it, the one nearest to it, and of two
      equally near ones the even one. Only the nearest below and the nearest above can
      be that one.\<close>
  "shortest_at m e n =
     (let vn = (if 0 \<le> e then m * 2 ^ nat e else m);
          vd = (if 0 \<le> e then 1 else 2 ^ nat (- e));
          j = floor_log 10 vn vd - n + 1;
          sn = (if 0 \<le> j then vn else vn * 10 ^ nat (- j));
          sd = (if 0 \<le> j then vd * 10 ^ nat j else vd);
          lo = sn div sd;
          hi = (if sn mod sd = 0 then lo else lo + 1);
          lo_ok = (decimal lo j = Finite m e);
          hi_ok = (decimal hi j = Finite m e)
      in if lo_ok \<and> hi_ok
         then (if 2 * sn < (lo + hi) * sd then Some (lo, j)
               else if (lo + hi) * sd < 2 * sn then Some (hi, j)
               else if even lo then Some (lo, j) else Some (hi, j))
         else if lo_ok then Some (lo, j)
         else if hi_ok then Some (hi, j)
         else None)"

definition exact_decimal :: "int \<Rightarrow> int \<Rightarrow> int \<times> int" where
  \<comment> \<open>\<open>m * 2 ^ e\<close> written out in full as \<open>M * 10 ^ j\<close>\<close>
  "exact_decimal m e = (if 0 \<le> e then (m * 2 ^ nat e, 0) else (m * 5 ^ nat (- e), e))"

function shortest_from :: "int \<Rightarrow> int \<Rightarrow> int \<Rightarrow> int \<times> int" where
  \<comment> \<open>The first of the numbers of digits \<open>n\<close>, \<open>n + 1\<close>, \<dots>, 17 to have a decimal that
      converts back to \<open>m * 2 ^ e\<close>, with that decimal. 17 significant digits always do
      for a float, and the value written out in full converts back in any case.\<close>
  "shortest_from m e n =
     (if 17 < n then exact_decimal m e
      else case shortest_at m e n of
             Some r \<Rightarrow> r
           | None \<Rightarrow> shortest_from m e (n + 1))"
  by pat_completeness auto
termination
  by (relation "measure (\<lambda>(m, e, n). nat (18 - n))") auto

declare shortest_from.simps [simp del]

definition shortest_decimal :: "int \<Rightarrow> int \<Rightarrow> int \<times> int" where
  \<comment> \<open>the shortest decimal that converts back to \<open>m * 2 ^ e\<close>\<close>
  "shortest_decimal m e = shortest_from m e 1"

function digits_of :: "int \<Rightarrow> string" where
  \<comment> \<open>\<open>str(n)\<close> for \<open>n\<close> not negative\<close>
  "digits_of n =
     (if n < 10 then [char_of (48 + n)]
      else digits_of (n div 10) @ [char_of (48 + n mod 10)])"
  by pat_completeness auto
termination
  by (relation "measure nat") (auto intro!: int_div_less_self)

declare digits_of.simps [simp del]

definition format_digits :: "string \<Rightarrow> int \<Rightarrow> string" where
  \<comment> \<open>The digits \<open>d\<^sub>1 \<dots> d\<^sub>k\<close>, which stand for \<open>0.d\<^sub>1 \<dots> d\<^sub>k * 10 ^ decpt\<close>, as \<open>repr\<close> lays them
      out: in positional notation when the decimal point falls within them or at most
      three zeros before or sixteen digits after their start, in exponent notation
      otherwise.\<close>
  "format_digits digits decpt =
     (if - 4 < decpt \<and> decpt \<le> 16 then
        (if decpt \<le> 0
         then ''0.'' @ replicate (nat (- decpt)) (CHR ''0'') @ digits
         else if int (length digits) \<le> decpt
         then digits @ replicate (nat decpt - length digits) (CHR ''0'') @ ''.0''
         else take (nat decpt) digits @ ''.'' @ drop (nat decpt) digits)
      else
        (let ex = decpt - 1;
             es = digits_of \<bar>ex\<bar>
         in (if length digits = 1 then digits
             else take 1 digits @ ''.'' @ drop 1 digits) @
            ''e'' @ (if ex < 0 then ''-'' else ''+'') @
            (if length es < 2 then ''0'' @ es else es)))"

fun format_decimal :: "int \<times> int \<Rightarrow> string" where
  \<comment> \<open>\<open>M * 10 ^ j\<close>, for \<open>M\<close> positive: the digits of \<open>M\<close> without their trailing zeros,
      laid out\<close>
  "format_decimal (M, j) =
     format_digits (rev (dropWhile (\<lambda>c. c = CHR ''0'') (rev (digits_of M))))
       (int (length (digits_of M)) + j)"

fun float_repr :: "pyfloat \<Rightarrow> string" where
  \<comment> \<open>\<open>repr(x)\<close>, which is also \<open>str(x)\<close> and the f-string's \<open>{x}\<close>: the shortest digits
      that convert back to \<open>x\<close>\<close>
  "float_repr Infinity = ''inf''"
| "float_repr (Finite m e) =
     (if m = 0 then ''0.0'' else format_decimal (shortest_decimal m e))"


section \<open>SSH version checker\<close>

definition match_at :: "string \<Rightarrow> (string \<times> string) option" where
  \<comment> \<open>A match of \<open>OpenSSH_(\d+\.\d+)\<close> at the start of the string: the two runs of
      digits of the group. Both \<open>\d+\<close> are greedy, and giving digits back cannot help
      the match, so each run is the longest one.\<close>
  "match_at s =
     (if startswith s ''OpenSSH_'' then
        (let d1 = takeWhile is_digit (drop 8 s)
         in case dropWhile is_digit (drop 8 s) of
              [] \<Rightarrow> None
            | c # rest \<Rightarrow>
                (let d2 = takeWhile is_digit rest
                 in if d1 \<noteq> [] \<and> c = CHR ''.'' \<and> d2 \<noteq> [] then Some (d1, d2) else None))
      else None)"

fun re_search :: "string \<Rightarrow> (string \<times> string) option" where
  \<comment> \<open>\<open>re.search\<close>: the match at the leftmost position that has one\<close>
  "re_search [] = None"
| "re_search (x # xs) =
     (case match_at (x # xs) of Some g \<Rightarrow> Some g | None \<Rightarrow> re_search xs)"

definition get_openssh_version :: "string result \<Rightarrow> pyfloat option result" where
  \<comment> \<open>The argument is the outcome of \<open>ssh -V\<close>, standard error included. Only
      \<open>CalledProcessError\<close> is caught.\<close>
  "get_openssh_version ssh_V =
     (case ssh_V of
        Inl (Raised CalledProcessError _) \<Rightarrow> Inr None
      | Inl e \<Rightarrow> Inl e
      | Inr ssh_version_output \<Rightarrow>
          (case re_search ssh_version_output of
             Some (int_part, frac_part) \<Rightarrow> Inr (Some (py_float int_part frac_part))
           | None \<Rightarrow> Inr None))"

definition check_openssh_version ::
  "string result \<Rightarrow> (bool \<times> string \<times> pyfloat option) result" where
  \<comment> \<open>The handler of line 111 is kept as written, with \<open>str(e)\<close> for \<open>{e}\<close>.\<close>
  "check_openssh_version ssh_V =
     (case get_openssh_version ssh_V of
        Inl (Raised CalledProcessError msg) \<Rightarrow> Inr (False, ''Error: '' @ msg, None)
      | Inl e \<Rightarrow> Inl e
      | Inr (Some ssh_version) \<Rightarrow>
          if float_ge ssh_version (to_double 77 10) then Inr (True, '''', Some ssh_version)
          else Inr (False,
                 ''[+] OpenSSH version is: '' @ float_repr ssh_version @
                 '', required version 7.7 and above.'',
                 Some ssh_version)
      | Inr None \<Rightarrow> Inr (False, ''Failed to determine OpenSSH version.'', None))"

section \<open>Log collector\<close>

text \<open>
  What the file system and the clock do during one call of \<open>logs_collect\<close>: for each
  library call of the function, whether it raises, and for \<open>shutil.rmtree\<close>, which is
  called with \<open>ignore_errors=True\<close> and so never raises, whether the directory is gone
  afterwards.
\<close>

record fs_env =
  staging_before :: bool  \<comment> \<open>\<open>/tmp/psmp_logs\<close> exists before the call\<close>
  makedirs_raises :: "py_exception option"  \<comment> \<open>\<open>os.makedirs(temp_folder, exist_ok=True)\<close>\<close>
  path_exists :: "string \<Rightarrow> bool"
  path_isdir :: "string \<Rightarrow> bool"
  copytree_raises :: "string \<Rightarrow> py_exception option"
  copy_raises :: "string \<Rightarrow> py_exception option"
  current_date :: string  \<comment> \<open>\<open>datetime.datetime.now().strftime("%m.%d.%y")\<close>\<close>
  zip_raises :: "py_exception option"  \<comment> \<open>creating the archive, walking the staging tree
    and writing its files\<close>
  rmtree_removes :: bool

record collect_result =
  printed :: "string list"
  raised :: "py_exception option"  \<comment> \<open>the exception that leaves the function, if any\<close>
  staging_exists :: bool  \<comment> \<open>\<open>/tmp/psmp_logs\<close> exists afterwards\<close>

definition log_folders :: "string list" where
  "log_folders =
     [''/var/log/secure'',
      ''/var/log/messages'',
      ''/var/opt/CARKpsmp/logs'',
      ''/var/opt/CARKpsmp/logs/components'',
      ''/etc/ssh/sshd_config'',
      ''/etc/pam.d/sshd'',
      ''/etc/pam.d/password-auth'',
      ''/etc/pam.d/system-auth'',
      ''/etc/nsswitch.conf'',
      ''/var/opt/CARKpsmp/temp/EnvManager.log'']"

definition str_exc :: "py_exception \<Rightarrow> string" where
  \<comment> \<open>\<open>str(e)\<close>\<close>
  "str_exc e = (case e of Raised _ msg \<Rightarrow> msg)"

fun copy_logs :: "fs_env \<Rightarrow> string list \<Rightarrow> string list \<times> py_exception option" where
  \<comment> \<open>The loop of lines 166 to 173: the lines it prints and the exception that ends it,
      if any.\<close>
  "copy_logs env [] = ([], None)"
| "copy_logs env (folder # rest) =
     (if path_exists env folder then
        (case (if path_isdir env folder then copytree_raises env folder
               else copy_raises env folder) of
           Some e \<Rightarrow> ([], Some e)
         | None \<Rightarrow> copy_logs env rest)
      else
        (case copy_logs env rest of
           (out, r) \<Rightarrow> ((''Folder not found: '' @ folder) # out, r)))"

definition logs_collect :: "fs_env \<Rightarrow> collect_result" where
  \<comment> \<open>\<open>os.makedirs\<close> is called before the \<open>try\<close> statement; \<open>except Exception\<close> catches
      whatever the copying and the archiving raise; the \<open>finally\<close> clause calls
      \<open>shutil.rmtree\<close>.\<close>
  "logs_collect env =
     (case makedirs_raises env of
        Some e \<Rightarrow> \<lparr>printed = [], raised = Some e, staging_exists = staging_before env\<rparr>
      | None \<Rightarrow>
          (case copy_logs env log_folders of
             (out, copy_result) \<Rightarrow>
               \<lparr>printed = out @
                  [case copy_result of
                     Some e \<Rightarrow> ''An error occurred: '' @ str_exc e
                   | None \<Rightarrow>
                       (case zip_raises env of
                          Some e \<Rightarrow> ''An error occurred: '' @ str_exc e
                        | None \<Rightarrow>
                            ''Logs copied and zip file created: PSMP_Logs_'' @
                            current_date env @ ''.zip'')],
                raised = None,
                staging_exists = (\<not> rmtree_removes env)\<rparr>))"

section \<open>Entry point\<close>


record run =
  stdout :: "string list"
  exit_status :: nat
  traceback :: "py_exception option"  \<comment> \<open>the uncaught exception, if one ended the run\<close>

definition crash :: "string list \<Rightarrow> py_exception \<Rightarrow> run" where
  \<comment> \<open>an uncaught exception: the interpreter prints the traceback and exits with 1\<close>
  "crash out e = \<lparr>stdout = out, exit_status = 1, traceback = Some e\<rparr>"




section \<open>Example environments\<close>

definition fs_example :: fs_env where
  \<comment> \<open>every source but \<open>/var/log/messages\<close> exists, nothing fails\<close>
  "fs_example =
     \<lparr>staging_before = False,
      makedirs_raises = None,
      path_exists = (\<lambda>p. p \<noteq> ''/var/log/messages''),
      path_isdir = (\<lambda>p. p = ''/var/opt/CARKpsmp/logs'' \<or>
                        p = ''/var/opt/CARKpsmp/logs/components''),
      copytree_raises = (\<lambda>p. None),
      copy_raises = (\<lambda>p. None),
      current_date = ''11.04.26'',
      zip_raises = None,
      rmtree_removes = True\<rparr>"

definition fs_foreign_staging :: fs_env where
  \<comment> \<open>\<open>/tmp/psmp_logs\<close> is there already and belongs to another user: \<open>os.makedirs\<close>
      accepts it, nothing can be written into it and it cannot be removed\<close>
  "fs_foreign_staging =
     \<lparr>staging_before = True,
      makedirs_raises = None,
      path_exists = (\<lambda>p. True),
      path_isdir = (\<lambda>p. p = ''/var/opt/CARKpsmp/logs'' \<or>
                        p = ''/var/opt/CARKpsmp/logs/components''),
      copytree_raises = (\<lambda>p. Some (Raised PermissionError ''[Errno 13] Permission denied'')),
      copy_raises = (\<lambda>p. Some (Raised PermissionError ''[Errno 13] Permission denied'')),
      current_date = ''11.04.26'',
      zip_raises = None,
      rmtree_removes = False\<rparr>"


section \<open>Auxiliary facts about strings and loops\<close>

lemma split_max_ne: "split_max c n s \<noteq> []"
  by (cases n) (auto split: list.splits)

lemma dropWhile_neq_Cons:
  "dropWhile (\<lambda>x. x \<noteq> c) s = y # ys \<Longrightarrow> y = c \<and> c \<in> set s"
proof -
  assume a: "dropWhile (\<lambda>x. x \<noteq> c) s = y # ys"
  have "dropWhile (\<lambda>x. x \<noteq> c) s \<noteq> []" unfolding a by simp
  then have "\<not> (\<lambda>x. x \<noteq> c) (hd (dropWhile (\<lambda>x. x \<noteq> c) s))" by (rule hd_dropWhile)
  then have "y = c" unfolding a by simp
  moreover have "y \<in> set (dropWhile (\<lambda>x. x \<noteq> c) s)" unfolding a by simp
  then have "y \<in> set s" by (rule set_dropWhileD)
  ultimately show ?thesis by simp
qed

lemma takeWhile_neq_all: "c \<notin> set s \<Longrightarrow> takeWhile (\<lambda>x. x \<noteq> c) s = s"
  by (induction s) auto

lemma dropWhile_neq_Nil: "dropWhile (\<lambda>x. x \<noteq> c) s = [] \<Longrightarrow> c \<notin> set s"
  by (induction s) (auto split: if_splits)

lemma split_max_Suc_Nil:
  "dropWhile (\<lambda>x. x \<noteq> c) s = [] \<Longrightarrow> split_max c (Suc n) s = [s]"
  by (simp only: split_max.simps list.case)

lemma split_max_Suc_Cons:
  "dropWhile (\<lambda>x. x \<noteq> c) s = y # ys \<Longrightarrow>
   split_max c (Suc n) s = takeWhile (\<lambda>x. x \<noteq> c) s # split_max c n ys"
  by (simp only: split_max.simps list.case)

lemma hd_split_max:
  "(n = 0 \<longrightarrow> c \<notin> set s) \<Longrightarrow> hd (split_max c n s) = takeWhile (\<lambda>x. x \<noteq> c) s"
proof (cases n)
  case 0
  assume "n = 0 \<longrightarrow> c \<notin> set s"
  with 0 show ?thesis by (simp add: takeWhile_neq_all)
next
  case (Suc k)
  show ?thesis
  proof (cases "dropWhile (\<lambda>x. x \<noteq> c) s")
    case Nil
    then show ?thesis
      unfolding Suc split_max_Suc_Nil[OF Nil]
      by (simp add: takeWhile_neq_all dropWhile_neq_Nil)
  next
    case (Cons y ys)
    show ?thesis unfolding Suc split_max_Suc_Cons[OF Cons] by simp
  qed
qed

lemma versions_loop_ex: "versions_loop dv vs = list_ex (\<lambda>sv. startswith dv sv) vs"
  by (induction vs) simp_all

lemma distros_loop_ex: "distros_loop dn dv ds = list_ex (\<lambda>d. lower (name d) = lower dn \<and>
   list_ex (\<lambda>sv. startswith dv sv) (case versions d of None \<Rightarrow> [] | Some vs \<Rightarrow> vs)) ds"
  by (induction ds) (auto simp: versions_loop_ex)

lemma keys_loop_spec: "keys_loop v dn dv m = spec_is_supported m v dn dv"
proof (induction m)
  case Nil
  show ?case by (simp add: spec_is_supported_def)
next
  case (Cons e m)
  obtain k ds where e: "e = (k, ds)" by (cases e)
  from Cons show ?case
    by (auto simp: e spec_is_supported_def distros_loop_ex)
qed


lemma split_no_sep: "c \<notin> set s \<Longrightarrow> split c s = [s]"
proof (cases s)
  case Nil then show ?thesis by (simp add: split_def)
next
  case (Cons x xs)
  assume "c \<notin> set s"
  then have "dropWhile (\<lambda>x. x \<noteq> c) s = []" by (induction s) auto
  then have "split_max c (Suc (length xs)) s = [s]" by (rule split_max_Suc_Nil)
  with Cons show ?thesis by (simp add: split_def)
qed

lemma split_sep:
  assumes "c \<in> set s"
  shows "1 < length (split c s)"
    and "split c s ! 0 = takeWhile (\<lambda>x. x \<noteq> c) s"
    and "split c s ! 1 = takeWhile (\<lambda>x. x \<noteq> c) (tl (dropWhile (\<lambda>x. x \<noteq> c) s))"
proof -
  from assms obtain k where k: "length s = Suc k" by (cases s) auto
  from assms have "dropWhile (\<lambda>x. x \<noteq> c) s \<noteq> []" by (simp add: dropWhile_eq_Nil_conv)
  then obtain y ys where d: "dropWhile (\<lambda>x. x \<noteq> c) s = y # ys"
    by (cases "dropWhile (\<lambda>x. x \<noteq> c) s") auto
  have sp: "split c s = takeWhile (\<lambda>x. x \<noteq> c) s # split_max c k ys"
    unfolding split_def k by (rule split_max_Suc_Cons[OF d])
  have "length (dropWhile (\<lambda>x. x \<noteq> c) s) \<le> length s" by (rule length_dropWhile_le)
  then have "length ys \<le> k" unfolding d k by simp
  then have "k = 0 \<longrightarrow> c \<notin> set ys" by auto
  then have h: "hd (split_max c k ys) = takeWhile (\<lambda>x. x \<noteq> c) ys" by (rule hd_split_max)
  have ne: "split_max c k ys \<noteq> []" by (rule split_max_ne)
  show "1 < length (split c s)" unfolding sp using ne by (cases "split_max c k ys") simp_all
  show "split c s ! 0 = takeWhile (\<lambda>x. x \<noteq> c) s" unfolding sp by simp
  have "split c s ! 1 = hd (split_max c k ys)"
    unfolding sp using ne by (cases "split_max c k ys") simp_all
  also have "\<dots> = takeWhile (\<lambda>x. x \<noteq> c) (tl (dropWhile (\<lambda>x. x \<noteq> c) s))"
    unfolding h d by simp
  finally show "split c s ! 1 = takeWhile (\<lambda>x. x \<noteq> c) (tl (dropWhile (\<lambda>x. x \<noteq> c) s))" .
qed

lemma main_version_eq:
  "main_version s =
     takeWhile (\<lambda>x. x \<noteq> CHR ''.'') s @ ''.'' @
     (if CHR ''.'' \<in> set s
      then takeWhile (\<lambda>x. x \<noteq> CHR ''.'') (tl (dropWhile (\<lambda>x. x \<noteq> CHR ''.'') s))
      else ''0'')"
proof (cases "CHR ''.'' \<in> set s")
  case True
  from split_sep[OF True] True show ?thesis
    by (simp add: main_version_def Let_def)
next
  case False
  then show ?thesis
    by (simp add: main_version_def Let_def split_no_sep takeWhile_neq_all)
qed

lemma main_version_fixed:
  assumes "CHR ''.'' \<notin> set major" and "CHR ''.'' \<notin> set minor"
  shows "main_version (major @ ''.'' @ minor) = major @ ''.'' @ minor"
proof -
  have t: "takeWhile (\<lambda>x. x \<noteq> CHR ''.'') (major @ CHR ''.'' # minor) = major"
    using assms(1) by (induction major) auto
  have d: "dropWhile (\<lambda>x. x \<noteq> CHR ''.'') (major @ CHR ''.'' # minor) = CHR ''.'' # minor"
    using assms(1) by (induction major) auto
  show ?thesis
    unfolding main_version_eq using assms(2) by (simp add: t d takeWhile_neq_all)
qed

lemma no_sep_takeWhile: "c \<notin> set (takeWhile (\<lambda>x. x \<noteq> c) s)"
  by (induction s) auto

lemma main_version_idem: "main_version (main_version s) = main_version s"
proof -
  let ?a = "takeWhile (\<lambda>x. x \<noteq> CHR ''.'') s"
  let ?b = "(if CHR ''.'' \<in> set s
      then takeWhile (\<lambda>x. x \<noteq> CHR ''.'') (tl (dropWhile (\<lambda>x. x \<noteq> CHR ''.'') s))
      else ''0'')"
  have m: "main_version s = ?a @ ''.'' @ ?b" by (rule main_version_eq)
  have a: "CHR ''.'' \<notin> set ?a" by (rule no_sep_takeWhile)
  have b: "CHR ''.'' \<notin> set ?b" by (simp add: no_sep_takeWhile)
  show ?thesis unfolding m by (rule main_version_fixed[OF a b])
qed

section \<open>Installed-version detector: properties\<close>

text \<open>
  C10: the installed-version extraction is not total over non-empty package-query
  outputs. On \<open>CARKpsmp-14.0\<close> the second \<open>-\<close>-separated field has only two
  \<open>.\<close>-separated components and the three-way unpacking raises \<open>ValueError\<close>; on
  \<open>CARKpsmp\<close> there is no second field and the indexing raises \<open>IndexError\<close>. Neither
  exception is caught, so the result is neither a version nor the not-found value.
\<close>

theorem get_installed_psmp_version_raises:
  "get_installed_psmp_version (Inr ''CARKpsmp-14.0'') =
     Inl (Raised ValueError ''not enough values to unpack (expected 3, got 2)'')
   \<and> get_installed_psmp_version (Inr ''CARKpsmp'') =
     Inl (Raised IndexError ''list index out of range'')
   \<and> (\<exists>out e. strip out \<noteq> [] \<and> get_installed_psmp_version (Inr out) = Inl e)"
proof -
  have a: "get_installed_psmp_version (Inr ''CARKpsmp-14.0'') =
     Inl (Raised ValueError ''not enough values to unpack (expected 3, got 2)'')"
    by code_simp
  have b: "get_installed_psmp_version (Inr ''CARKpsmp'') =
     Inl (Raised IndexError ''list index out of range'')"
    by code_simp
  have c: "strip ''CARKpsmp-14.0'' \<noteq> []"
    by code_simp
  from a b c show ?thesis by blast
qed

section \<open>Version normalisation: properties\<close>

text \<open>
  C9, as stated, for the installed-version extraction: an already normalised
  \<open>14.0\<close> is not returned unchanged. The unpacking of line 23 needs a third component
  and raises \<open>ValueError\<close>; the whole function, given \<open>14.0\<close> as the query output, finds
  no second \<open>-\<close>-separated field and raises \<open>IndexError\<close>.
\<close>

theorem version_parsing_idempotent_counterexample:
  "major_minor ''14.0'' \<noteq> Inr ''14.0''
   \<and> major_minor ''14.0'' =
       Inl (Raised ValueError ''not enough values to unpack (expected 3, got 2)'')
   \<and> get_installed_psmp_version (Inr ''14.0'') \<noteq> Inr (Some ''14.0'')
   \<and> get_installed_psmp_version (Inr ''14.0'') =
       Inl (Raised IndexError ''list index out of range'')"
  by code_simp

text \<open>
  C9, amended: the distribution detector's normalisation is idempotent. A string
  \<open>major.minor\<close> whose two components contain no \<open>.\<close> is returned unchanged, and the
  normalisation of any string is a fixed point of the normalisation.
\<close>

theorem main_version_idempotent:
  assumes "CHR ''.'' \<notin> set major" and "CHR ''.'' \<notin> set minor"
  shows "main_version (major @ ''.'' @ minor) = major @ ''.'' @ minor
         \<and> main_version (main_version s) = main_version s
         \<and> snd (get_linux_distribution n (snd (get_linux_distribution n s)))
             = snd (get_linux_distribution n s)"
  using main_version_fixed[OF assms] main_version_idem[of s]
  by (simp add: get_linux_distribution_def)

theorem main_version_idempotent_witness:
  "main_version ''8.6'' = ''8.6''
   \<and> main_version (main_version ''8.6.1'') = main_version ''8.6.1''
   \<and> main_version ''8.6.1'' = ''8.6''"
proof -
  have a: "CHR ''.'' \<notin> set ''8''" and b: "CHR ''.'' \<notin> set ''6''" by simp_all
  have c: "main_version ''8.6.1'' = ''8.6''" by code_simp
  from main_version_idempotent[OF a b, of "''8.6.1''"] c show ?thesis by simp
qed

section \<open>Compatibility evaluator: properties\<close>

text \<open>
  C1, as stated: the result would be that of the three nested loops alone. It is not:
  with the single key \<open>14.0.1\<close> and the installed version \<open>14.0\<close>, a key starts with
  the installed version and its entry matches Red Hat 8.6, yet \<open>is_supported\<close> returns
  false, because line 39 first requires the installed version to be a key itself.
\<close>

theorem is_supported_prefix_only_counterexample:
  "spec_is_supported [(''14.0.1'', [\<lparr>name = ''Red Hat'', versions = Some [''8'']\<rparr>])]
        ''14.0'' ''Red Hat'' ''8.6''
   \<and> \<not> is_supported [(''14.0.1'', [\<lparr>name = ''Red Hat'', versions = Some [''8'']\<rparr>])]
        ''14.0'' ''Red Hat'' ''8.6''"
  by code_simp

text \<open>
  C1, amended: \<open>is_supported\<close> returns true if and only if the installed version is
  itself a key of the matrix and some key starts with it under which an entry has the
  distribution's name, compared case-insensitively, and declares a version that is a
  prefix of the distribution's version.
\<close>

theorem is_supported_iff:
  "is_supported m v dn dv \<longleftrightarrow>
     v \<in> fst ` set m \<and>
     (\<exists>(k, ds) \<in> set m. startswith k v \<and>
        (\<exists>d \<in> set ds. lower (name d) = lower dn \<and>
           (\<exists>sv \<in> set (case versions d of None \<Rightarrow> [] | Some vs \<Rightarrow> vs).
              startswith dv sv)))"
  by (auto simp: is_supported_def keys_loop_spec spec_is_supported_def list_ex_iff)

theorem is_supported_iff_witness:
  "is_supported [(''14.0'', [\<lparr>name = ''Red Hat'', versions = Some [''8'']\<rparr>])]
        ''14.0'' ''red hat'' ''8.6''"
  by (rule is_supported_iff[THEN iffD2]) code_simp

section \<open>Service status checker: properties\<close>

lemma psmpsrv_status_failed:
  "psmpsrv_status (Inl (Raised CalledProcessError m)) console_log = Inr ''Inactive''"
  by (simp add: psmpsrv_status_def)

lemma sshd_status_failed:
  "sshd_status (Inl (Raised CalledProcessError m)) = Inr ''Inactive''"
  by (simp add: sshd_status_def)

lemma psmpsrv_status_values:
  "psmpsrv_status q l = Inr s \<Longrightarrow>
   s = ''Running and communicating with Vault''
   \<or> s = ''Running but not communicating with Vault'' \<or> s = ''Inactive''"
  unfolding psmpsrv_status_def
  by (simp split: sum.splits py_exception.splits exc_class.splits if_splits)

lemma sshd_status_values:
  "sshd_status q = Inr s \<Longrightarrow> s = ''Running'' \<or> s = ''Inactive''"
  unfolding sshd_status_def
  by (simp split: sum.splits py_exception.splits exc_class.splits if_splits)

lemma check_services_status_Inr:
  "check_services_status q l q' = Inr d \<Longrightarrow>
   \<exists>s s'. psmpsrv_status q l = Inr s \<and> sshd_status q' = Inr s'
          \<and> d = [(''psmpsrv'', s), (''sshd'', s')]"
  unfolding check_services_status_def by (simp split: sum.splits)

text \<open>
  C3, on the code. When the status text of the agent's service contains
  \<open>Active: active\<close> and opening the log raises \<open>FileNotFoundError\<close>, the handler of
  line 69 does not catch it: \<open>check_services_status\<close> raises that exception and returns
  no classification at all.
\<close>

theorem check_services_status_log_missing:
  assumes "contains ''Active: active'' result_psmpsrv"
  shows "check_services_status (Inr result_psmpsrv) (Inl (Raised FileNotFoundError m))
           systemctl_sshd = Inl (Raised FileNotFoundError m)"
  using assms by (simp add: check_services_status_def psmpsrv_status_def)

theorem check_services_status_log_missing_witness:
  "check_services_status (Inr ''   Active: active (running) since Mon 2024-01-01'')
     (Inl (Raised FileNotFoundError ''[Errno 2] No such file or directory''))
     (Inr ''   Active: active (running)'')
   = Inl (Raised FileNotFoundError ''[Errno 2] No such file or directory'')"
proof -
  have c: "contains ''Active: active'' ''   Active: active (running) since Mon 2024-01-01''"
    by code_simp
  show ?thesis by (rule check_services_status_log_missing[OF c])
qed

text \<open>
  C4, as stated: a failed status query would give a value other than \<open>Inactive\<close>. It
  gives \<open>Inactive\<close>, for both services, and the returned dict is the same as for two
  services whose status text says \<open>Active: inactive\<close>.
\<close>

theorem failed_query_distinct_counterexample:
  "check_services_status (Inl (Raised CalledProcessError ''exit status 4''))
       (Inr []) (Inl (Raised CalledProcessError ''exit status 4''))
     = Inr [(''psmpsrv'', ''Inactive''), (''sshd'', ''Inactive'')]
   \<and> check_services_status (Inl (Raised CalledProcessError ''exit status 4''))
       (Inr []) (Inl (Raised CalledProcessError ''exit status 4''))
     = check_services_status (Inr ''   Active: inactive (dead)'')
       (Inr []) (Inr ''   Active: inactive (dead)'')"
  by code_simp

text \<open>
  C4, amended: a service whose status query fails with \<open>CalledProcessError\<close> is
  reported as \<open>Inactive\<close>, the value also used for a service that is not active; and
  whenever \<open>check_services_status\<close> returns, both keys are present with one of the
  values Running and communicating, Running but not communicating, Running, Inactive:
  there is no Unavailable value, and the caller's default is never used.
\<close>

theorem failed_query_inactive:
  assumes "check_services_status systemctl_psmpsrv console_log systemctl_sshd = Inr d"
  shows "((\<exists>m. systemctl_psmpsrv = Inl (Raised CalledProcessError m))
            \<longrightarrow> dict_get d ''psmpsrv'' ''Unavailable'' = ''Inactive'')
       \<and> ((\<exists>m. systemctl_sshd = Inl (Raised CalledProcessError m))
            \<longrightarrow> dict_get d ''sshd'' ''Unavailable'' = ''Inactive'')
       \<and> dict_get d ''psmpsrv'' ''Unavailable'' \<in>
            {''Running and communicating with Vault'',
             ''Running but not communicating with Vault'', ''Inactive''}
       \<and> dict_get d ''sshd'' ''Unavailable'' \<in> {''Running'', ''Inactive''}"
proof -
  from check_services_status_Inr[OF assms] obtain s s' where
    s: "psmpsrv_status systemctl_psmpsrv console_log = Inr s" and
    s': "sshd_status systemctl_sshd = Inr s'" and
    d: "d = [(''psmpsrv'', s), (''sshd'', s')]" by blast
  have g1: "dict_get d ''psmpsrv'' ''Unavailable'' = s" by (simp add: d dict_get_def)
  have g2: "dict_get d ''sshd'' ''Unavailable'' = s'" by (simp add: d dict_get_def)
  have a: "(\<exists>m. systemctl_psmpsrv = Inl (Raised CalledProcessError m)) \<longrightarrow> s = ''Inactive''"
    using s psmpsrv_status_failed by auto
  have b: "(\<exists>m. systemctl_sshd = Inl (Raised CalledProcessError m)) \<longrightarrow> s' = ''Inactive''"
    using s' sshd_status_failed by auto
  from psmpsrv_status_values[OF s] sshd_status_values[OF s'] a b
  show ?thesis unfolding g1 g2 by blast
qed

theorem failed_query_inactive_witness:
  "dict_get [(''psmpsrv'', ''Inactive''), (''sshd'', ''Running'')] ''psmpsrv'' ''Unavailable''
     = ''Inactive''
   \<and> check_services_status (Inl (Raised CalledProcessError ''exit status 4'')) (Inr [])
       (Inr ''   Active: active (running)'')
     = Inr [(''psmpsrv'', ''Inactive''), (''sshd'', ''Running'')]"
proof -
  have r: "check_services_status (Inl (Raised CalledProcessError ''exit status 4'')) (Inr [])
       (Inr ''   Active: active (running)'')
     = Inr [(''psmpsrv'', ''Inactive''), (''sshd'', ''Running'')]"
    by code_simp
  from failed_query_inactive[OF r] r show ?thesis by blast
qed

section \<open>SSH configuration auditor: properties\<close>

lemma scan_lines_allow_user:
  "fst (snd (scan_lines lines (b, a, p))) =
     (a \<or> list_ex (\<lambda>line. startswith (strip line) ''AllowUser'') lines)"
  by (induction lines arbitrary: b a p) auto

lemma scan_lines_pubkey:
  "snd (snd (scan_lines lines (b, a, p))) = (p \<or> list_ex uncommented_pubkey_line lines)"
  by (induction lines arbitrary: b a p) (auto simp: uncommented_pubkey_line_def)

lemma advisory_not_other_line:
  "key_auth_advisory \<noteq> ''PSMP authentication block not found.''"
  "key_auth_advisory \<noteq> ''AllowUser mentioned found.''"
  by (simp_all add: key_auth_advisory_def)

lemma check_sshd_config_advisory:
  "\<exists>out. check_sshd_config (Inr lines) = Inr out
     \<and> (key_auth_advisory \<in> set out) =
         (\<not> list_ex (\<lambda>line. startswith (strip line) ''AllowUser'') lines)"
proof -
  obtain b a p where s: "scan_lines lines (False, False, False) = (b, a, p)"
    by (cases "scan_lines lines (False, False, False)") auto
  have "a = list_ex (\<lambda>line. startswith (strip line) ''AllowUser'') lines"
    using scan_lines_allow_user[of lines False False False] s by simp
  then show ?thesis
    using advisory_not_other_line by (auto simp: check_sshd_config_def s)
qed

text \<open>
  C2, on the code. The advisory is printed in the \<open>else\<close> branch of the test of
  \<open>found_allow_user\<close>; the flag for \<open>PubkeyAcceptedAlgorithms\<close> is never read. So a file
  whose only line is an uncommented \<open>PubkeyAcceptedAlgorithms\<close> directive gets the
  advisory, and a file with that directive commented out and an \<open>AllowUsers\<close> line
  does not.
\<close>

theorem check_sshd_config_ignores_pubkey:
  "list_ex uncommented_pubkey_line [''PubkeyAcceptedAlgorithms +ssh-rsa\<newline>'']
   \<and> check_sshd_config (Inr [''PubkeyAcceptedAlgorithms +ssh-rsa\<newline>''])
       = Inr [''PSMP authentication block not found.'', key_auth_advisory]
   \<and> \<not> list_ex uncommented_pubkey_line
         [''AllowUsers root\<newline>'', ''#PubkeyAcceptedAlgorithms +ssh-rsa\<newline>'']
   \<and> check_sshd_config
         (Inr [''AllowUsers root\<newline>'', ''#PubkeyAcceptedAlgorithms +ssh-rsa\<newline>''])
       = Inr [''PSMP authentication block not found.'', ''AllowUser mentioned found.'']"
  by code_simp

section \<open>Python floats: properties\<close>

lemma count_digits_nonneg: "0 \<le> count_digits b n"
proof (induction b n rule: count_digits.induct)
  case (1 b n)
  show ?case
    by (subst count_digits.simps) (use 1 in auto)
qed

lemma count_digits_pos: "2 \<le> b \<Longrightarrow> 1 \<le> n \<Longrightarrow> 1 \<le> count_digits b n"
  using count_digits_nonneg[of b "n div b"] by (subst count_digits.simps) simp

lemma count_digits_bounds:
  "2 \<le> b \<Longrightarrow> 1 \<le> n \<Longrightarrow>
   b ^ nat (count_digits b n - 1) \<le> n \<and> n < b ^ nat (count_digits b n)"
proof (induction b n rule: count_digits.induct)
  case (1 b n)
  show ?case
  proof (cases "n < b")
    case True
    then have "n div b = 0" using 1 by simp
    then have "count_digits b n = 1"
      using 1 by (subst count_digits.simps) (simp add: count_digits.simps[of b 0])
    then show ?thesis using True 1 by simp
  next
    case False
    then have "0 < n div b" using 1(2)
      by (simp add: pos_imp_zdiv_pos_iff)
    then have q: "1 \<le> n div b" by simp
    have c: "count_digits b n = 1 + count_digits b (n div b)"
      using 1 by (subst count_digits.simps) simp
    have ih: "b ^ nat (count_digits b (n div b) - 1) \<le> n div b"
             "n div b < b ^ nat (count_digits b (n div b))"
      using 1 q by auto
    have p: "1 \<le> count_digits b (n div b)" using count_digits_pos 1 q by simp
    then have s: "nat (count_digits b (n div b)) = Suc (nat (count_digits b (n div b) - 1))"
      by simp
    have dm: "n = b * (n div b) + n mod b" by simp
    have m0: "0 \<le> n mod b" "n mod b < b" using 1(2) by simp_all
    have "b * b ^ nat (count_digits b (n div b) - 1) \<le> b * (n div b)"
      using ih(1) 1 by simp
    also have "\<dots> \<le> n" using dm m0 by linarith
    finally have lo: "b ^ nat (count_digits b n - 1) \<le> n"
      unfolding c using s by simp
    have "n div b + 1 \<le> b ^ nat (count_digits b (n div b))" using ih(2) by simp
    then have "b * (n div b + 1) \<le> b * b ^ nat (count_digits b (n div b))"
      using 1 by simp
    moreover have "n < b * (n div b) + b" using dm m0 by linarith
    then have "n < b * (n div b + 1)" by (simp add: distrib_left)
    ultimately have hi: "n < b ^ nat (count_digits b n)"
      unfolding c using p by (simp add: nat_add_distrib)
    from lo hi show ?thesis by simp
  qed
qed

lemma pow_le_real:
  assumes "2 \<le> b"
  shows "(if 0 \<le> k then d * b ^ nat k \<le> n else d \<le> n * b ^ nat (- k))
         \<longleftrightarrow> real_of_int b powi k * real_of_int d \<le> real_of_int n"
proof (cases "0 \<le> k")
  case True
  have "real_of_int b powi k * real_of_int d = real_of_int (d * b ^ nat k)"
    using True by (simp add: power_int_def)
  then show ?thesis using True by (simp only: of_int_le_iff if_True)
next
  case False
  have p: "0 < real_of_int b ^ nat (- k)" using assms by simp
  have "real_of_int b powi k * real_of_int d \<le> real_of_int n
        \<longleftrightarrow> real_of_int d \<le> real_of_int n * real_of_int b ^ nat (- k)"
    using False p by (simp add: power_int_def field_simps)
  also have "\<dots> \<longleftrightarrow> real_of_int d \<le> real_of_int (n * b ^ nat (- k))" by simp
  also have "\<dots> \<longleftrightarrow> d \<le> n * b ^ nat (- k)" by (simp only: of_int_le_iff)
  finally show ?thesis using False by simp
qed

lemma count_digits_real:
  assumes "2 \<le> b" "1 \<le> n"
  shows "real_of_int b powi (count_digits b n - 1) \<le> real_of_int n"
    and "real_of_int n < real_of_int b powi (count_digits b n)"
proof -
  have c: "1 \<le> count_digits b n" using count_digits_pos assms by simp
  have "real_of_int (b ^ nat (count_digits b n - 1)) \<le> real_of_int n"
    using count_digits_bounds[OF assms] by (simp only: of_int_le_iff)
  then show "real_of_int b powi (count_digits b n - 1) \<le> real_of_int n"
    using c by (simp add: power_int_def)
  have "real_of_int n < real_of_int (b ^ nat (count_digits b n))"
    using count_digits_bounds[OF assms] by (simp only: of_int_less_iff)
  then show "real_of_int n < real_of_int b powi (count_digits b n)"
    using c by (simp add: power_int_def)
qed

lemma floor_log_spec:
  assumes "2 \<le> b" "1 \<le> n" "1 \<le> d"
  shows "real_of_int b powi (floor_log b n d) * real_of_int d \<le> real_of_int n"
    and "real_of_int n < real_of_int b powi (floor_log b n d + 1) * real_of_int d"
proof -
  define B where "B = real_of_int b"
  define k where "k = count_digits b n - count_digits b d"
  have B: "1 < B" "B \<noteq> 0" "0 < B" using assms by (simp_all add: B_def)
  note n = count_digits_real[OF assms(1) assms(2), folded B_def]
  note d = count_digits_real[OF assms(1) assms(3), folded B_def]
  have pos: "0 < B powi j" for j using B by (simp add: zero_less_power_int)
  have lo: "B powi (k - 1) * real_of_int d \<le> real_of_int n"
  proof -
    have "B powi (k - 1) * real_of_int d \<le> B powi (k - 1) * B powi (count_digits b d)"
      using d(2) pos[of "k - 1"] by simp
    also have "\<dots> = B powi (count_digits b n - 1)"
      using B by (simp add: power_int_add[symmetric] k_def)
    also have "\<dots> \<le> real_of_int n" by (rule n(1))
    finally show ?thesis .
  qed
  have hi: "real_of_int n < B powi (k + 1) * real_of_int d"
  proof -
    have "real_of_int n < B powi (count_digits b n)" by (rule n(2))
    also have "\<dots> = B powi (k + 1) * B powi (count_digits b d - 1)"
      using B by (simp add: power_int_add[symmetric] k_def)
    also have "\<dots> \<le> B powi (k + 1) * real_of_int d"
      using d(1) pos[of "k + 1"] by simp
    finally show ?thesis .
  qed
  have fl: "floor_log b n d = (if B powi k * real_of_int d \<le> real_of_int n then k else k - 1)"
    unfolding floor_log_def Let_def k_def[symmetric] B_def
    using pow_le_real[OF assms(1), of k d n] by simp
  show "real_of_int b powi (floor_log b n d) * real_of_int d \<le> real_of_int n"
    unfolding B_def[symmetric] fl using lo by simp
  show "real_of_int n < real_of_int b powi (floor_log b n d + 1) * real_of_int d"
    unfolding B_def[symmetric] fl using hi by (simp add: not_le)
qed





lemma round_half_even_lower:
  assumes "0 < d" "a * d \<le> n"
  shows "a \<le> round_half_even n d"
proof -
  have "a \<le> n div d" using assms zdiv_mono1[of "a * d" n d] by simp
  then show ?thesis by (simp add: round_half_even_def Let_def)
qed

lemma round_half_even_upper:
  assumes "0 < d" "n \<le> a * d"
  shows "round_half_even n d \<le> a"
proof (cases "n div d < a")
  case True
  then show ?thesis by (simp add: round_half_even_def Let_def)
next
  case False
  have dm: "n = d * (n div d) + n mod d" by simp
  have le: "n div d \<le> a"
    using assms zdiv_mono1[of n "a * d" d] by simp
  with False have q: "n div d = a" by simp
  have "0 \<le> n mod d" using assms by simp
  moreover have "n mod d = n - a * d" using dm q by (simp add: algebra_simps minus_mult_div_eq_mod)
  ultimately have "n mod d = 0" using assms by linarith
  then show ?thesis using q assms by (simp add: round_half_even_def Let_def)
qed


lemma powi2_nonneg:
  "0 \<le> e \<Longrightarrow> (2::real) powi (e + 53) = 2 ^ 53 * 2 ^ nat e"
  "0 \<le> e \<Longrightarrow> (2::real) powi (e + 52) = 2 ^ 52 * 2 ^ nat e"
proof -
  assume e: "0 \<le> e"
  have "(2::real) powi (e + 53) = 2 powi e * 2 powi 53" by (simp add: power_int_add)
  then show "(2::real) powi (e + 53) = 2 ^ 53 * 2 ^ nat e" using e by (simp add: power_int_def)
  have "(2::real) powi (e + 52) = 2 powi e * 2 powi 52" by (simp add: power_int_add)
  then show "(2::real) powi (e + 52) = 2 ^ 52 * 2 ^ nat e" using e by (simp add: power_int_def)
qed

lemma powi2_neg:
  "e < 0 \<Longrightarrow> (2::real) powi (e + 53) = 2 ^ 53 / 2 ^ nat (- e)"
  "e < 0 \<Longrightarrow> (2::real) powi (e + 52) = 2 ^ 52 / 2 ^ nat (- e)"
proof -
  assume e: "e < 0"
  have "(2::real) powi (e + 53) = 2 powi e * 2 powi 53" by (simp add: power_int_add)
  then show "(2::real) powi (e + 53) = 2 ^ 53 / 2 ^ nat (- e)"
    using e by (simp add: power_int_def field_simps)
  have "(2::real) powi (e + 52) = 2 powi e * 2 powi 52" by (simp add: power_int_add)
  then show "(2::real) powi (e + 52) = 2 ^ 52 / 2 ^ nat (- e)"
    using e by (simp add: power_int_def field_simps)
qed

lemma to_double_valid:
  assumes "0 \<le> n" "1 \<le> d"
  shows "is_binary64 (to_double n d)"
proof (cases "n = 0")
  case True
  then show ?thesis by (simp add: to_double_def)
next
  case False
  then have n: "1 \<le> n" using assms by simp
  define L where "L = floor_log 2 n d"
  define e where "e = max (L - 52) (- 1074)"
  define m where "m = (if 0 \<le> e then round_half_even n (d * 2 ^ nat e)
                       else round_half_even (n * 2 ^ nat (- e)) d)"
  have s: "2 powi L * real_of_int d \<le> real_of_int n"
          "real_of_int n < 2 powi (L + 1) * real_of_int d"
    using floor_log_spec[of 2 n d] n assms by (simp_all add: L_def)
  have dpos: "0 < real_of_int d" using assms by simp
  have up: "real_of_int n \<le> 2 powi (e + 53) * real_of_int d"
  proof -
    have "(2::real) powi (L + 1) \<le> 2 powi (e + 53)"
      by (rule power_int_increasing) (simp_all add: e_def)
    then have "2 powi (L + 1) * real_of_int d \<le> 2 powi (e + 53) * real_of_int d"
      using dpos by simp
    with s(2) show ?thesis by linarith
  qed
  have lo: "e = L - 52 \<Longrightarrow> 2 powi (e + 52) * real_of_int d \<le> real_of_int n"
    using s(1) by simp
  have m_up: "m \<le> 2 ^ 53"
  proof (cases "0 \<le> e")
    case True
    have "real_of_int n \<le> real_of_int (2 ^ 53 * (d * 2 ^ nat e))"
      using up unfolding powi2_nonneg(1)[OF True] by (simp add: mult.commute mult.left_commute)
    then have "n \<le> 2 ^ 53 * (d * 2 ^ nat e)" by (simp only: of_int_le_iff)
    then show ?thesis
      unfolding m_def using True assms round_half_even_upper[of "d * 2 ^ nat e" n "2 ^ 53"]
      by simp
  next
    case False
    have p: "0 < (2::real) ^ nat (- e)" by simp
    have lt: "e < 0" using False by simp
    have "real_of_int n * 2 ^ nat (- e) \<le> 2 ^ 53 * real_of_int d"
      using up p unfolding powi2_neg(1)[OF lt] by (simp add: field_simps)
    then have "real_of_int (n * 2 ^ nat (- e)) \<le> real_of_int (2 ^ 53 * d)" by simp
    then have "n * 2 ^ nat (- e) \<le> 2 ^ 53 * d" by (simp only: of_int_le_iff)
    then show ?thesis
      unfolding m_def using False assms round_half_even_upper[of d "n * 2 ^ nat (- e)" "2 ^ 53"]
      by simp
  qed
  have m_lo: "2 ^ 52 \<le> m" if "e = L - 52"
  proof (cases "0 \<le> e")
    case True
    have "real_of_int (2 ^ 52 * (d * 2 ^ nat e)) \<le> real_of_int n"
      using lo[OF that] unfolding powi2_nonneg(2)[OF True] by (simp add: mult.commute mult.left_commute)
    then have "2 ^ 52 * (d * 2 ^ nat e) \<le> n" by (simp only: of_int_le_iff)
    then show ?thesis
      unfolding m_def using True assms round_half_even_lower[of "d * 2 ^ nat e" "2 ^ 52" n]
      by simp
  next
    case False
    have p: "0 < (2::real) ^ nat (- e)" by simp
    have lt: "e < 0" using False by simp
    have "2 ^ 52 * real_of_int d \<le> real_of_int n * 2 ^ nat (- e)"
      using lo[OF that] p unfolding powi2_neg(2)[OF lt] by (simp add: field_simps)
    then have "real_of_int (2 ^ 52 * d) \<le> real_of_int (n * 2 ^ nat (- e))" by simp
    then have "2 ^ 52 * d \<le> n * 2 ^ nat (- e)" by (simp only: of_int_le_iff)
    then show ?thesis
      unfolding m_def using False assms round_half_even_lower[of d "2 ^ 52" "n * 2 ^ nat (- e)"]
      by simp
  qed
  have m_nonneg: "0 \<le> m"
  proof (cases "0 \<le> e")
    case True
    then show ?thesis
      unfolding m_def using assms round_half_even_lower[of "d * 2 ^ nat e" 0 n] by simp
  next
    case False
    then show ?thesis
      unfolding m_def using assms round_half_even_lower[of d 0 "n * 2 ^ nat (- e)"] by simp
  qed
  have e_lo: "- 1074 \<le> e" by (simp add: e_def)
  have e_cases: "e = L - 52 \<or> e = - 1074" by (auto simp: e_def max_def)
  have td: "to_double n d =
          (if 971 < (if m = 2 ^ 53 then e + 1 else e) then Infinity
           else Finite (if m = 2 ^ 53 then 2 ^ 52 else m) (if m = 2 ^ 53 then e + 1 else e))"
    unfolding to_double_def Let_def m_def e_def L_def using False by simp
  show ?thesis
  proof (cases "m = 2 ^ 53")
    case True
    then show ?thesis unfolding td using e_lo by simp
  next
    case False
    then have "m < 2 ^ 53" using m_up by simp
    moreover have "m < 2 ^ 52 \<Longrightarrow> e = - 1074" using m_lo e_cases by fastforce
    ultimately show ?thesis unfolding td using False e_lo m_nonneg by simp
  qed
qed






lemma decimal_valid: "0 \<le> M \<Longrightarrow> is_binary64 (decimal M j)"
  unfolding decimal_def by (simp add: to_double_valid)











lemma digits_value_Nil [simp]: "digits_value [] = 0"
  by (simp add: digits_value_def)

















section \<open>SSH version checker: properties\<close>

























lemma get_openssh_version_no_CalledProcessError:
  "get_openssh_version ssh_V \<noteq> Inl (Raised CalledProcessError msg)"
  unfolding get_openssh_version_def
  by (simp split: sum.splits py_exception.splits exc_class.splits option.splits prod.splits)

text \<open>
  C6, on the code. \<open>get_openssh_version\<close> returns \<open>None\<close> both when the pattern is absent
  and when the command fails, so \<open>check_openssh_version\<close> gives the same triple, with
  the same message, in the two cases. No \<open>CalledProcessError\<close> ever reaches the handler
  of line 111, which would have reported a failed command as \<open>Error: \<dots>\<close>.
\<close>

theorem check_openssh_version_failures_same:
  assumes "re_search ssh_version_output = None"
  shows "check_openssh_version (Inr ssh_version_output)
           = Inr (False, ''Failed to determine OpenSSH version.'', None)
       \<and> check_openssh_version (Inl (Raised CalledProcessError msg))
           = Inr (False, ''Failed to determine OpenSSH version.'', None)
       \<and> check_openssh_version (Inl (Raised CalledProcessError msg))
           = check_openssh_version (Inr ssh_version_output)
       \<and> check_openssh_version ssh_V \<noteq> Inr (False, ''Error: '' @ text, None)"
proof -
  have a: "check_openssh_version (Inr ssh_version_output)
           = Inr (False, ''Failed to determine OpenSSH version.'', None)"
    using assms by (simp add: check_openssh_version_def get_openssh_version_def)
  have b: "check_openssh_version (Inl (Raised CalledProcessError msg))
           = Inr (False, ''Failed to determine OpenSSH version.'', None)"
    by (simp add: check_openssh_version_def get_openssh_version_def)
  have c: "check_openssh_version ssh_V \<noteq> Inr (False, ''Error: '' @ text, None)"
  proof (cases "get_openssh_version ssh_V")
    case (Inl e)
    obtain cls m where e: "e = Raised cls m" by (cases e)
    have "cls \<noteq> CalledProcessError"
      using Inl get_openssh_version_no_CalledProcessError[of ssh_V m] by (auto simp: e)
    then show ?thesis
      by (cases cls) (simp_all add: check_openssh_version_def Inl e)
  next
    case (Inr v)
    then show ?thesis
      by (cases v) (simp_all add: check_openssh_version_def)
  qed
  from a b c show ?thesis by simp
qed

theorem check_openssh_version_failures_same_witness:
  "check_openssh_version (Inl (Raised CalledProcessError
       ''Command '['ssh', '-V']' returned non-zero exit status 255.''))
     = check_openssh_version (Inr ''usage: ssh [-46AaCfGgKkMNnqsTtVvXxYy]\<newline>'')"
proof -
  have r: "re_search ''usage: ssh [-46AaCfGgKkMNnqsTtVvXxYy]\<newline>'' = None" by code_simp
  from check_openssh_version_failures_same[OF r] show ?thesis by blast
qed

section \<open>Log collector: properties\<close>

lemma copy_logs_missing_reported:
  "snd (copy_logs env folders) = None \<Longrightarrow> folder \<in> set folders \<Longrightarrow>
   \<not> path_exists env folder \<Longrightarrow>
   (''Folder not found: '' @ folder) \<in> set (fst (copy_logs env folders))"
  by (induction folders) (auto split: option.splits prod.splits if_splits)

lemma copy_logs_raised:
  "snd (copy_logs env folders) = Some e \<Longrightarrow>
   \<exists>folder \<in> set folders. path_exists env folder \<and>
      (if path_isdir env folder then copytree_raises env folder
       else copy_raises env folder) = Some e"
  by (induction folders) (auto split: option.splits prod.splits if_splits)

lemma logs_collect_returns:
  assumes "makedirs_raises env = None"
  shows "raised (logs_collect env) = None"
    and "staging_exists (logs_collect env) = (\<not> rmtree_removes env)"
    and "printed (logs_collect env) =
           fst (copy_logs env log_folders) @
           [case snd (copy_logs env log_folders) of
              Some e \<Rightarrow> ''An error occurred: '' @ str_exc e
            | None \<Rightarrow>
                (case zip_raises env of
                   Some e \<Rightarrow> ''An error occurred: '' @ str_exc e
                 | None \<Rightarrow>
                     ''Logs copied and zip file created: PSMP_Logs_'' @
                     current_date env @ ''.zip'')]"
  using assms by (simp_all add: logs_collect_def split: prod.splits)

text \<open>
  C7, as stated: after \<open>logs_collect\<close> returns, the staging directory would be gone on
  every path. \<open>shutil.rmtree\<close> is called with \<open>ignore_errors=True\<close>: where the removal
  fails, here on a staging directory that was there before the call and belongs to
  another user, the failure is silent, the function returns normally and the directory
  is still there.
\<close>

theorem logs_collect_staging_counterexample:
  "makedirs_raises fs_foreign_staging = None
   \<and> raised (logs_collect fs_foreign_staging) = None
   \<and> printed (logs_collect fs_foreign_staging)
       = [''An error occurred: [Errno 13] Permission denied'']
   \<and> staging_exists (logs_collect fs_foreign_staging)"
  by code_simp

text \<open>
  C7, amended: once the staging directory has been created, \<open>logs_collect\<close> always
  returns normally, on every path the removal of the staging directory is attempted
  last, and the directory is gone afterwards exactly when that removal succeeds. An
  exception raised while copying or archiving is caught and printed as
  \<open>An error occurred: \<dots>\<close>, as the last line; when nothing is raised the last line
  announces the archive, and every missing source has been reported.
\<close>

theorem logs_collect_cleanup:
  assumes "makedirs_raises env = None"
  shows "raised (logs_collect env) = None
       \<and> staging_exists (logs_collect env) = (\<not> rmtree_removes env)
       \<and> (rmtree_removes env \<longrightarrow> \<not> staging_exists (logs_collect env))
       \<and> (snd (copy_logs env log_folders) = Some e \<longrightarrow>
            last (printed (logs_collect env)) = ''An error occurred: '' @ str_exc e)
       \<and> (snd (copy_logs env log_folders) = None \<and> zip_raises env = Some e \<longrightarrow>
            last (printed (logs_collect env)) = ''An error occurred: '' @ str_exc e)
       \<and> (snd (copy_logs env log_folders) = None \<and> zip_raises env = None \<longrightarrow>
            last (printed (logs_collect env)) =
              ''Logs copied and zip file created: PSMP_Logs_'' @ current_date env @ ''.zip''
            \<and> (\<forall>folder \<in> set log_folders. \<not> path_exists env folder \<longrightarrow>
                  (''Folder not found: '' @ folder) \<in> set (printed (logs_collect env))))"
proof -
  note r = logs_collect_returns[OF assms]
  have a: "rmtree_removes env \<longrightarrow> \<not> staging_exists (logs_collect env)"
    by (simp add: r(2))
  have b: "snd (copy_logs env log_folders) = Some e \<longrightarrow>
            last (printed (logs_collect env)) = ''An error occurred: '' @ str_exc e"
    by (simp add: r(3))
  have c: "snd (copy_logs env log_folders) = None \<and> zip_raises env = Some e \<longrightarrow>
            last (printed (logs_collect env)) = ''An error occurred: '' @ str_exc e"
    by (simp add: r(3))
  have d: "snd (copy_logs env log_folders) = None \<and> zip_raises env = None \<longrightarrow>
            last (printed (logs_collect env)) =
              ''Logs copied and zip file created: PSMP_Logs_'' @ current_date env @ ''.zip''"
    by (simp add: r(3))
  have m: "snd (copy_logs env log_folders) = None \<longrightarrow>
           (\<forall>folder \<in> set log_folders. \<not> path_exists env folder \<longrightarrow>
             (''Folder not found: '' @ folder) \<in> set (printed (logs_collect env)))"
  proof (intro impI ballI)
    fix folder
    assume "snd (copy_logs env log_folders) = None" "folder \<in> set log_folders"
      "\<not> path_exists env folder"
    then have "(''Folder not found: '' @ folder) \<in> set (fst (copy_logs env log_folders))"
      by (rule copy_logs_missing_reported)
    then show "(''Folder not found: '' @ folder) \<in> set (printed (logs_collect env))"
      unfolding r(3) by simp
  qed
  from r(1) r(2) a b c d m show ?thesis by blast
qed

theorem logs_collect_cleanup_witness:
  "raised (logs_collect fs_example) = None
   \<and> \<not> staging_exists (logs_collect fs_example)
   \<and> printed (logs_collect fs_example) =
       [''Folder not found: /var/log/messages'',
        ''Logs copied and zip file created: PSMP_Logs_11.04.26.zip'']"
proof -
  have a: "makedirs_raises fs_example = None" and b: "rmtree_removes fs_example"
    by (simp_all add: fs_example_def)
  have c: "printed (logs_collect fs_example) =
       [''Folder not found: /var/log/messages'',
        ''Logs copied and zip file created: PSMP_Logs_11.04.26.zip'']"
    by code_simp
  from logs_collect_cleanup[OF a] b c show ?thesis by blast
qed

section \<open>Compatibility evaluator on the loaded file: properties\<close>

lemma json_versions_loop_typed:
  "json_versions_loop dv (map JString vs) = Inr (versions_loop dv vs)"
  by (induction vs) simp_all

lemma json_distros_loop_typed:
  "json_distros_loop dn dv (map json_of_distribution ds) = Inr (distros_loop dn dv ds)"
proof (induction ds)
  case Nil
  show ?case by simp
next
  case (Cons d ds)
  show ?case
  proof (cases "versions d")
    case None
    then show ?thesis using Cons by (simp add: json_of_distribution_def)
  next
    case (Some vs)
    then show ?thesis
      using Cons by (simp add: json_of_distribution_def json_versions_loop_typed)
  qed
qed

lemma json_of_matrix_lookup:
  assumes "distinct (map fst m)" "(k, ds) \<in> set m"
  shows "py_getitem (json_of_matrix m) k
         = Inr (JObject [(''supported_distributions'', JArray (map json_of_distribution ds))])"
proof -
  let ?f = "\<lambda>(version, distributions).
              (version,
               JObject [(''supported_distributions'',
                         JArray (map json_of_distribution distributions))])"
  have fm: "map fst (map ?f m) = map fst m" by (induction m) auto
  have "distinct (map fst (map ?f m))" unfolding fm by (rule assms(1))
  moreover have "?f (k, ds) \<in> set (map ?f m)" using assms(2) by (simp only: set_map) (rule imageI)
  ultimately have "map_of (map ?f m) k
      = Some (JObject [(''supported_distributions'', JArray (map json_of_distribution ds))])"
    by simp
  then show ?thesis by (simp add: json_of_matrix_def)
qed

lemma json_keys_loop_typed:
  assumes "distinct (map fst m)"
  shows "set rest \<subseteq> set m \<Longrightarrow>
         json_keys_loop (json_of_matrix m) v dn dv (map (\<lambda>kv. JString (fst kv)) rest)
         = Inr (keys_loop v dn dv rest)"
proof (induction rest)
  case Nil
  show ?case by simp
next
  case (Cons kd rest)
  obtain k ds where kd: "kd = (k, ds)" by (cases kd)
  have "(k, ds) \<in> set m" using Cons.prems kd by simp
  note l = json_of_matrix_lookup[OF assms this]
  have ih: "json_keys_loop (json_of_matrix m) v dn dv (map (\<lambda>kv. JString (fst kv)) rest)
            = Inr (keys_loop v dn dv rest)"
    using Cons by simp
  show ?case
    unfolding kd using l ih by (simp add: json_distros_loop_typed)
qed

text \<open>
  On a matrix of the shape the data model describes, \<open>is_supported\<close> raises nothing and
  returns what the evaluator on that shape returns.
\<close>

lemma is_supported_json_typed:
  assumes "distinct (map fst m)"
  shows "is_supported_json (json_of_matrix m) v dn dv = Inr (is_supported m v dn dv)"
proof -
  have c: "py_contains v (json_of_matrix m) = Inr (v \<in> set (map fst m))"
    by (induction m) (auto simp: json_of_matrix_def)
  have i: "py_iter (json_of_matrix m) = Inr (map (\<lambda>kv. JString (fst kv)) m)"
    by (induction m) (auto simp: json_of_matrix_def)
  show ?thesis
    unfolding is_supported_json_def is_supported_def c i
    using json_keys_loop_typed[OF assms, of m v dn dv] by simp
qed

text \<open>
  On a file that loads and has another shape it raises: a rule without
  \<open>supported_distributions\<close>, an entry without \<open>name\<close>, a \<open>versions\<close> that is \<open>null\<close>.
\<close>

lemma is_supported_json_raises:
  "is_supported_json (JObject [(''14.0'', JObject [])]) ''14.0'' distro_name distro_version
   = Inl (Raised KeyError (quoted ''supported_distributions''))"
  "is_supported_json
     (JObject [(''14.0'', JObject [(''supported_distributions'',
                 JArray [JObject [(''versions'', JArray [JString ''8''])]])])])
     ''14.0'' distro_name distro_version
   = Inl (Raised KeyError (quoted ''name''))"
  "is_supported_json
     (JObject [(''14.0'', JObject [(''supported_distributions'',
                 JArray [JObject [(''name'', JString distro_name), (''versions'', JNull)]])])])
     ''14.0'' distro_name distro_version
   = Inl (Raised TypeError (quoted ''NoneType'' @ '' object is not iterable''))"
  by (simp_all add: is_supported_json_def startswith_def)

section \<open>Entry point: properties\<close>

lemma crash_fields [simp]:
  "exit_status (crash out e) = 1" "traceback (crash out e) = Some e" "stdout (crash out e) = out"
  by (simp_all add: crash_def)








end
